theory Spec2Isabelle
  imports Main
begin

section \<open>Values, entities and the query cache\<close>

text \<open>
  The repository is a React Native template whose data layer consists of
  \<^item> \<^verbatim>\<open>hooks/useBaseCrud.ts\<close>: optimistic create, update and remove over a cached
    collection;
  \<^item> \<^verbatim>\<open>hooks/useAuth.ts\<close>: login, registration, logout, role and permission checks;
  \<^item> \<^verbatim>\<open>lib/authEvents.ts\<close>: the module-level listener array with
    \<^verbatim>\<open>subscribe\<close> and \<^verbatim>\<open>emitLogout\<close>.

  A JavaScript value that can occur as a field of an entity or as an element of a query
  key is a \<open>jsval\<close>. Identifiers are typed \<^verbatim>\<open>string | number\<close> in the source; on such
  values \<^verbatim>\<open>===\<close> is equality of the constructor and its argument. An entity is an
  object, that is a finite map from property names to values; a property that is missing
  reads as \<^verbatim>\<open>undefined\<close>, which is \<open>None\<close> here.
\<close>

datatype jsval = JNum int | JStr string | JBool bool | JNull

type_synonym entity = "string \<rightharpoonup> jsval"

type_synonym cache_key = "jsval list"

text \<open>
  The query client of the caching library is an external collaborator. Its state is the
  data stored under each key (\<open>None\<close>: never populated), the keys with a read in flight
  and the keys marked for a refetch. The operations below are the ones the hooks call,
  with the library's documented behaviour: \<^verbatim>\<open>getQueryData\<close> reads, \<^verbatim>\<open>setQueryData\<close>
  replaces the data under one key (given a value, or an updater applied to the old data,
  which is \<^verbatim>\<open>undefined\<close> for a key never populated), \<^verbatim>\<open>cancelQueries\<close> abandons the
  reads in flight for the key, \<^verbatim>\<open>invalidateQueries\<close> marks the key for a refetch and
  \<^verbatim>\<open>clear\<close> drops everything.
\<close>

record query_client =
  entries :: "cache_key \<rightharpoonup> entity list"
  fetching :: "cache_key set"
  invalidated :: "cache_key set"

definition getQueryData :: "cache_key \<Rightarrow> query_client \<Rightarrow> entity list option" where
  "getQueryData queryKey qc = entries qc queryKey"

definition setQueryData :: "cache_key \<Rightarrow> entity list \<Rightarrow> query_client \<Rightarrow> query_client" where
  "setQueryData queryKey newData qc = qc\<lparr>entries := (entries qc)(queryKey \<mapsto> newData)\<rparr>"

definition setQueryDataWith ::
  "cache_key \<Rightarrow> (entity list option \<Rightarrow> entity list) \<Rightarrow> query_client \<Rightarrow> query_client" where
  "setQueryDataWith queryKey updater qc =
     setQueryData queryKey (updater (getQueryData queryKey qc)) qc"

definition cancelQueries :: "cache_key \<Rightarrow> query_client \<Rightarrow> query_client" where
  "cancelQueries queryKey qc = qc\<lparr>fetching := fetching qc - {queryKey}\<rparr>"

definition invalidateQueries :: "cache_key \<Rightarrow> query_client \<Rightarrow> query_client" where
  "invalidateQueries queryKey qc = qc\<lparr>invalidated := insert queryKey (invalidated qc)\<rparr>"

definition clear :: "query_client \<Rightarrow> query_client" where
  "clear qc = \<lparr>entries = Map.empty, fetching = {}, invalidated = {}\<rparr>"

section \<open>The optimistic mutation engine (useBaseCrud)\<close>

text \<open>
  Every updater in the source is written \<^verbatim>\<open>(old = []) => ...\<close>: the default
  parameter replaces an \<^verbatim>\<open>undefined\<close> argument by the empty array.
\<close>

definition old_or_empty :: "entity list option \<Rightarrow> entity list" where
  "old_or_empty old = (case old of None \<Rightarrow> [] | Some xs \<Rightarrow> xs)"

text \<open>
  \<^verbatim>\<open>`temp-${Date.now()}`\<close>: the reading of the clock, a number of milliseconds, is a
  parameter of the model; the template literal renders it in decimal.
\<close>

definition digit_char :: "nat \<Rightarrow> char" where
  "digit_char d = ''0123456789'' ! d"

function decimal :: "nat \<Rightarrow> string" where
  "decimal n = (if n < 10 then [digit_char n] else decimal (n div 10) @ [digit_char (n mod 10)])"
  by pat_completeness auto
termination
  by (relation "measure id") auto

declare decimal.simps [simp del]

definition temp_id :: "nat \<Rightarrow> jsval" where
  "temp_id now = JStr (''temp-'' @ decimal now)"

text \<open>The object every \<^verbatim>\<open>onMutate\<close> returns: \<^verbatim>\<open>{ previous }\<close>.\<close>

record mutation_context =
  previous :: "entity list option"

text \<open>
  \<^verbatim>\<open>{ ...item, ...data }\<close> copies the properties of \<open>item\<close> and then those of \<open>data\<close>,
  the later ones winning: the map \<open>item ++ data\<close>. \<^verbatim>\<open>item.id === id\<close> holds when the
  entity has an \<^verbatim>\<open>id\<close> property with exactly that value.
\<close>

definition has_id :: "jsval \<Rightarrow> entity \<Rightarrow> bool" where
  "has_id ident item = (item ''id'' = Some ident)"

definition create_onMutate ::
  "cache_key \<Rightarrow> nat \<Rightarrow> entity \<Rightarrow> query_client \<Rightarrow> mutation_context \<times> query_client" where
  "create_onMutate queryKey now data qc =
     (let qc1 = cancelQueries queryKey qc;
          prev = getQueryData queryKey qc1;
          qc2 = setQueryDataWith queryKey
                  (\<lambda>old. old_or_empty old @ [data(''id'' \<mapsto> temp_id now)]) qc1
      in (\<lparr>previous = prev\<rparr>, qc2))"

definition create_onError :: "cache_key \<Rightarrow> mutation_context \<Rightarrow> query_client \<Rightarrow> query_client" where
  "create_onError queryKey ctx qc =
     (case previous ctx of Some prev \<Rightarrow> setQueryData queryKey prev qc | None \<Rightarrow> qc)"

definition create_onSettled :: "cache_key \<Rightarrow> query_client \<Rightarrow> query_client" where
  "create_onSettled queryKey qc = invalidateQueries queryKey qc"

definition update_onMutate ::
  "cache_key \<Rightarrow> jsval \<Rightarrow> entity \<Rightarrow> query_client \<Rightarrow> mutation_context \<times> query_client" where
  "update_onMutate queryKey ident data qc =
     (let qc1 = cancelQueries queryKey qc;
          prev = getQueryData queryKey qc1;
          qc2 = setQueryDataWith queryKey
                  (\<lambda>old. map (\<lambda>item. if has_id ident item then item ++ data else item)
                             (old_or_empty old)) qc1
      in (\<lparr>previous = prev\<rparr>, qc2))"

definition update_onError :: "cache_key \<Rightarrow> mutation_context \<Rightarrow> query_client \<Rightarrow> query_client" where
  "update_onError queryKey ctx qc =
     (case previous ctx of Some prev \<Rightarrow> setQueryData queryKey prev qc | None \<Rightarrow> qc)"

definition update_onSettled :: "cache_key \<Rightarrow> query_client \<Rightarrow> query_client" where
  "update_onSettled queryKey qc = invalidateQueries queryKey qc"

definition remove_onMutate ::
  "cache_key \<Rightarrow> jsval \<Rightarrow> query_client \<Rightarrow> mutation_context \<times> query_client" where
  "remove_onMutate queryKey ident qc =
     (let qc1 = cancelQueries queryKey qc;
          prev = getQueryData queryKey qc1;
          qc2 = setQueryDataWith queryKey
                  (\<lambda>old. filter (\<lambda>item. \<not> has_id ident item) (old_or_empty old)) qc1
      in (\<lparr>previous = prev\<rparr>, qc2))"

definition remove_onError :: "cache_key \<Rightarrow> mutation_context \<Rightarrow> query_client \<Rightarrow> query_client" where
  "remove_onError queryKey ctx qc =
     (case previous ctx of Some prev \<Rightarrow> setQueryData queryKey prev qc | None \<Rightarrow> qc)"

definition remove_onSettled :: "cache_key \<Rightarrow> query_client \<Rightarrow> query_client" where
  "remove_onSettled queryKey qc = invalidateQueries queryKey qc"

text \<open>
  \<^verbatim>\<open>mutateAsync\<close> of the library runs the handlers of one mutation in a fixed order:
  \<^verbatim>\<open>onMutate\<close>, then the remote call; when the call rejects, \<^verbatim>\<open>onError\<close> with the
  context \<^verbatim>\<open>onMutate\<close> returned, then \<^verbatim>\<open>onSettled\<close>, and the returned promise rejects
  with the error; when it resolves, \<^verbatim>\<open>onSettled\<close>, and the promise resolves with the
  response. The outcome of the remote call is a parameter: \<open>Inl\<close> the normalized error
  of the transport, \<open>Inr\<close> the response body.
\<close>

datatype api_error = ApiError string

definition mutateAsync ::
  "(query_client \<Rightarrow> mutation_context \<times> query_client) \<Rightarrow>
   (mutation_context \<Rightarrow> query_client \<Rightarrow> query_client) \<Rightarrow>
   (query_client \<Rightarrow> query_client) \<Rightarrow>
   api_error + entity \<Rightarrow> query_client \<Rightarrow> (api_error + entity) \<times> query_client" where
  "mutateAsync onMutate onError onSettled remote qc =
     (let (ctx, qc1) = onMutate qc in
      case remote of
        Inl err \<Rightarrow> (Inl err, onSettled (onError ctx qc1))
      | Inr response \<Rightarrow> (Inr response, onSettled qc1))"

definition create ::
  "cache_key \<Rightarrow> nat \<Rightarrow> api_error + entity \<Rightarrow> entity \<Rightarrow> query_client \<Rightarrow>
   (api_error + entity) \<times> query_client" where
  "create queryKey now remote data =
     mutateAsync (create_onMutate queryKey now data) (create_onError queryKey)
       (create_onSettled queryKey) remote"

definition update ::
  "cache_key \<Rightarrow> api_error + entity \<Rightarrow> jsval \<Rightarrow> entity \<Rightarrow> query_client \<Rightarrow>
   (api_error + entity) \<times> query_client" where
  "update queryKey remote ident data =
     mutateAsync (update_onMutate queryKey ident data) (update_onError queryKey)
       (update_onSettled queryKey) remote"

definition remove ::
  "cache_key \<Rightarrow> api_error + entity \<Rightarrow> jsval \<Rightarrow> query_client \<Rightarrow>
   (api_error + entity) \<times> query_client" where
  "remove queryKey remote ident =
     mutateAsync (remove_onMutate queryKey ident) (remove_onError queryKey)
       (remove_onSettled queryKey) remote"

section \<open>The session manager (useAuth)\<close>

text \<open>
  The user object is typed \<^verbatim>\<open>any\<close>; the hook documents its expected shape as
  \<^verbatim>\<open>{ role, permissions?: string[] }\<close>, and these are the only properties it reads.
  The response of login and registration is \<^verbatim>\<open>{ access, refresh?, user }\<close>; its
  \<^verbatim>\<open>user\<close> property is the field \<open>data_user\<close> here, since \<open>user\<close> names the hook's
  state.
\<close>

record user_profile =
  role :: "string option"
  permissions :: "string list option"

record auth_data =
  access :: string
  refresh :: "string option"
  data_user :: user_profile

definition ACCESS_TOKEN_KEY :: string where
  "ACCESS_TOKEN_KEY = ''access_token''"

definition REFRESH_TOKEN_KEY :: string where
  "REFRESH_TOKEN_KEY = ''refresh_token''"

definition USER_KEY :: string where
  "USER_KEY = ''auth_user''"

text \<open>
  What the hook reads and writes: the durable key/value storage, the \<^verbatim>\<open>user\<close> state of
  the hook, and the query client. The storage library is an external collaborator,
  modelled as a map on which every operation succeeds.
\<close>

record app =
  storage :: "string \<rightharpoonup> string"
  user :: "user_profile option"
  queryClient :: query_client

text \<open>
  The handlers of the hook are straight-line asynchronous code: a sequence of writes, each
  of which is one step. A handler is modelled by the sequence of steps it performs, in
  program order; \<open>run\<close> gives the state after the last step and \<open>trace\<close> every state
  that other code can observe on the way (the state before the first step, and the state
  after each step).
\<close>

datatype effect =
    SetItem string string
  | MultiRemove "string list"
  | SetUser "user_profile option"
  | QueryClientClear

fun perform :: "effect \<Rightarrow> app \<Rightarrow> app" where
  "perform (SetItem k v) s = s\<lparr>storage := (storage s)(k \<mapsto> v)\<rparr>"
| "perform (MultiRemove ks) s = s\<lparr>storage := storage s |` (- set ks)\<rparr>"
| "perform (SetUser u) s = s\<lparr>user := u\<rparr>"
| "perform QueryClientClear s = s\<lparr>queryClient := clear (queryClient s)\<rparr>"

definition run :: "effect list \<Rightarrow> app \<Rightarrow> app" where
  "run es s = fold perform es s"

fun trace :: "effect list \<Rightarrow> app \<Rightarrow> app list" where
  "trace [] s = [s]"
| "trace (e # es) s = s # trace es (perform e s)"

text \<open>
  \<^verbatim>\<open>saveAuth\<close>: three awaited \<^verbatim>\<open>setItem\<close> calls, the second one under
  \<^verbatim>\<open>if (data.refresh)\<close>, which a missing and an empty string both fail.
  \<^verbatim>\<open>JSON.stringify\<close> is a parameter.
\<close>

definition saveAuth :: "(user_profile \<Rightarrow> string) \<Rightarrow> auth_data \<Rightarrow> effect list" where
  "saveAuth stringify data =
     [SetItem ACCESS_TOKEN_KEY (access data)]
     @ (case refresh data of
          None \<Rightarrow> []
        | Some r \<Rightarrow> if r = [] then [] else [SetItem REFRESH_TOKEN_KEY r])
     @ [SetItem USER_KEY (stringify (data_user data))]"

definition clearAuth :: "effect list" where
  "clearAuth = [MultiRemove [ACCESS_TOKEN_KEY, REFRESH_TOKEN_KEY, USER_KEY]]"

definition login_onSuccess :: "(user_profile \<Rightarrow> string) \<Rightarrow> auth_data \<Rightarrow> effect list" where
  "login_onSuccess stringify data =
     saveAuth stringify data @ [SetUser (Some (data_user data)), QueryClientClear]"

definition register_onSuccess :: "(user_profile \<Rightarrow> string) \<Rightarrow> auth_data \<Rightarrow> effect list" where
  "register_onSuccess stringify data =
     saveAuth stringify data @ [SetUser (Some (data_user data)), QueryClientClear]"

definition logout :: "effect list" where
  "logout = clearAuth @ [SetUser None, QueryClientClear]"

text \<open>The role and permission helpers, and \<^verbatim>\<open>isAuthenticated: !!user\<close>.\<close>

definition current_role :: "user_profile option \<Rightarrow> string option" where
  "current_role u = (case u of None \<Rightarrow> None | Some p \<Rightarrow> role p)"

definition current_permissions :: "user_profile option \<Rightarrow> string list" where
  "current_permissions u =
     (case u of None \<Rightarrow> [] | Some p \<Rightarrow> (case permissions p of None \<Rightarrow> [] | Some ps \<Rightarrow> ps))"

definition hasRole :: "user_profile option \<Rightarrow> string \<Rightarrow> bool" where
  "hasRole u r = (current_role u = Some r)"

definition hasPermission :: "user_profile option \<Rightarrow> string \<Rightarrow> bool" where
  "hasPermission u perm = (perm \<in> set (current_permissions u))"

definition hasAnyPermission :: "user_profile option \<Rightarrow> string list \<Rightarrow> bool" where
  "hasAnyPermission u perms = list_ex (\<lambda>p. p \<in> set (current_permissions u)) perms"

definition isAuthenticated :: "app \<Rightarrow> bool" where
  "isAuthenticated s = (user s \<noteq> None)"

section \<open>The session event bus (authEvents)\<close>

text \<open>
  The module keeps one array of listeners. \<^verbatim>\<open>subscribe\<close> pushes the function and
  returns a closure that rebinds the array to the one without it (\<^verbatim>\<open>l !== fn\<close> compares
  function references, so a listener is a value of any type with equality); the closure
  acts on whatever the array is when it is called.

  \<^verbatim>\<open>emitLogout\<close> is \<^verbatim>\<open>listeners.forEach((l) => l())\<close>, with no \<^verbatim>\<open>try\<close> around the
  call: \<^verbatim>\<open>forEach\<close> walks the array it was called on, from the first element, and an
  exception that a listener throws leaves the loop and \<^verbatim>\<open>emitLogout\<close>, so that the
  listeners after it are not called. \<open>invoke\<close> is what calling one listener does to the
  rest of the program: \<open>Inr\<close> the state it returns in, \<open>Inl\<close> what it throws.
\<close>

definition subscribe :: "'l \<Rightarrow> 'l list \<Rightarrow> 'l list \<times> ('l list \<Rightarrow> 'l list)" where
  "subscribe fn listeners = (listeners @ [fn], \<lambda>current. filter (\<lambda>l. l \<noteq> fn) current)"

fun emitLogout :: "('l \<Rightarrow> 'w \<Rightarrow> 'e + 'w) \<Rightarrow> 'l list \<Rightarrow> 'w \<Rightarrow> 'e + 'w" where
  "emitLogout invoke [] w = Inr w"
| "emitLogout invoke (l # listeners) w =
     (case invoke l w of
        Inl thrown \<Rightarrow> Inl thrown
      | Inr w' \<Rightarrow> emitLogout invoke listeners w')"

text \<open>
  To speak of the calls an emission makes, \<open>recorded invoke\<close> is \<open>invoke\<close> that also
  appends the listener to a list of calls, whether the call returns or throws.
\<close>

definition recorded ::
  "('l \<Rightarrow> 'w \<Rightarrow> 'e + 'w) \<Rightarrow> 'l \<Rightarrow> 'l list \<times> 'w \<Rightarrow> ('l list \<times> 'e) + ('l list \<times> 'w)" where
  "recorded invoke l cw =
     (case invoke l (snd cw) of
        Inl thrown \<Rightarrow> Inl (fst cw @ [l], thrown)
      | Inr w' \<Rightarrow> Inr (fst cw @ [l], w'))"

text \<open>
  The only listener the repository subscribes is the asynchronous arrow function in the
  second effect of \<^verbatim>\<open>useAuth\<close>; every mount of the hook creates a new one, numbered
  here. Calling an asynchronous function returns a promise at once and never throws to
  the caller: its steps are performed later, so a call appends them to the work that is
  pending, and \<open>settle\<close> performs what is pending, one listener's steps after the
  other's.
\<close>

datatype listener = UseAuthListener nat

datatype thrown = Thrown string

fun listener_body :: "listener \<Rightarrow> effect list" where
  "listener_body (UseAuthListener i) = clearAuth @ [SetUser None, QueryClientClear]"

record runtime =
  app_state :: app
  pending :: "effect list list"

definition invoke_listener :: "listener \<Rightarrow> runtime \<Rightarrow> thrown + runtime" where
  "invoke_listener l rt = Inr (rt\<lparr>pending := pending rt @ [listener_body l]\<rparr>)"

definition settle :: "runtime \<Rightarrow> app" where
  "settle rt = fold run (pending rt) (app_state rt)"

definition useAuth_subscribe ::
  "nat \<Rightarrow> listener list \<Rightarrow> listener list \<times> (listener list \<Rightarrow> listener list)" where
  "useAuth_subscribe i listeners = subscribe (UseAuthListener i) listeners"

section \<open>Example states\<close>

text \<open>The cache of the specification's example: \<^verbatim>\<open>["posts"] = [{id:1,title:"A"}]\<close>.\<close>

definition posts_A :: query_client where
  "posts_A = \<lparr>entries = [[JStr ''posts''] \<mapsto> [[''id'' \<mapsto> JNum 1, ''title'' \<mapsto> JStr ''A'']]],
              fetching = {}, invalidated = {}\<rparr>"

text \<open>A query client that holds nothing.\<close>

definition no_queries :: query_client where
  "no_queries = \<lparr>entries = Map.empty, fetching = {}, invalidated = {}\<rparr>"

text \<open>A signed-out application, an administrator and a login response, for the examples.\<close>

definition signed_out :: app where
  "signed_out = \<lparr>storage = Map.empty, user = None, queryClient = no_queries\<rparr>"

definition admin :: user_profile where
  "admin = \<lparr>role = Some ''admin'', permissions = Some [''posts.read'', ''posts.write'']\<rparr>"

definition login_response :: auth_data where
  "login_response = \<lparr>access = ''A1'', refresh = Some ''R1'', data_user = admin\<rparr>"

text \<open>
  Calling listeners of which number 0 is a synchronous function that throws; the others
  are the asynchronous listeners of \<^verbatim>\<open>useAuth\<close>.
\<close>

definition first_throws :: "listener \<Rightarrow> runtime \<Rightarrow> thrown + runtime" where
  "first_throws l rt =
     (case l of UseAuthListener i \<Rightarrow>
        if i = 0 then Inl (Thrown ''boom'') else invoke_listener l rt)"

definition idle :: runtime where
  "idle = \<lparr>app_state = signed_out, pending = []\<rparr>"

section \<open>Properties of the mutation engine\<close>

subsection \<open>What the handlers do to the entry\<close>

lemma entries_cancelQueries [simp]: "entries (cancelQueries k qc) = entries qc"
  by (simp add: cancelQueries_def)

lemma entries_invalidateQueries [simp]: "entries (invalidateQueries k qc) = entries qc"
  by (simp add: invalidateQueries_def)

lemma entries_setQueryData [simp]: "entries (setQueryData k v qc) = (entries qc)(k \<mapsto> v)"
  by (simp add: setQueryData_def)

lemma entries_setQueryDataWith [simp]:
  "entries (setQueryDataWith k f qc) = (entries qc)(k \<mapsto> f (entries qc k))"
  by (simp add: setQueryDataWith_def getQueryData_def)

lemma mutateAsync_rejected:
  "mutateAsync onMutate onError onSettled (Inl err) qc =
     (Inl err, onSettled (onError (fst (onMutate qc)) (snd (onMutate qc))))"
  by (simp add: mutateAsync_def split: prod.splits)

lemma mutateAsync_resolved:
  "mutateAsync onMutate onError onSettled (Inr r) qc = (Inr r, onSettled (snd (onMutate qc)))"
  by (simp add: mutateAsync_def split: prod.splits)

lemma create_onMutate_previous: "previous (fst (create_onMutate k now data qc)) = entries qc k"
  by (simp add: create_onMutate_def getQueryData_def Let_def)

lemma create_onMutate_entries:
  "entries (snd (create_onMutate k now data qc)) =
     (entries qc)(k \<mapsto> old_or_empty (entries qc k) @ [data(''id'' \<mapsto> temp_id now)])"
  by (simp add: create_onMutate_def getQueryData_def Let_def)

lemma update_onMutate_previous: "previous (fst (update_onMutate k ident data qc)) = entries qc k"
  by (simp add: update_onMutate_def getQueryData_def Let_def)

lemma update_onMutate_entries:
  "entries (snd (update_onMutate k ident data qc)) =
     (entries qc)(k \<mapsto> map (\<lambda>item. if has_id ident item then item ++ data else item)
                            (old_or_empty (entries qc k)))"
  by (simp add: update_onMutate_def getQueryData_def Let_def)

lemma remove_onMutate_previous: "previous (fst (remove_onMutate k ident qc)) = entries qc k"
  by (simp add: remove_onMutate_def getQueryData_def Let_def)

lemma remove_onMutate_entries:
  "entries (snd (remove_onMutate k ident qc)) =
     (entries qc)(k \<mapsto> filter (\<lambda>item. \<not> has_id ident item) (old_or_empty (entries qc k)))"
  by (simp add: remove_onMutate_def getQueryData_def Let_def)

text \<open>
  The entry after a rejected mutation has settled: the snapshot when there was one, the
  optimistic collection when the key had never been populated.
\<close>

lemma create_rejected_entries:
  "entries (snd (create k now (Inl err) data qc)) =
     (case entries qc k of
        Some old \<Rightarrow> (entries qc)(k \<mapsto> old)
      | None \<Rightarrow> (entries qc)(k \<mapsto> [data(''id'' \<mapsto> temp_id now)]))"
  by (simp add: create_def mutateAsync_rejected create_onError_def create_onSettled_def
      create_onMutate_previous create_onMutate_entries old_or_empty_def split: option.split)

lemma update_rejected_entries:
  "entries (snd (update k (Inl err) ident data qc)) =
     (case entries qc k of
        Some old \<Rightarrow> (entries qc)(k \<mapsto> old)
      | None \<Rightarrow> (entries qc)(k \<mapsto> []))"
  by (simp add: update_def mutateAsync_rejected update_onError_def update_onSettled_def
      update_onMutate_previous update_onMutate_entries old_or_empty_def split: option.split)

lemma remove_rejected_entries:
  "entries (snd (remove k (Inl err) ident qc)) =
     (case entries qc k of
        Some old \<Rightarrow> (entries qc)(k \<mapsto> old)
      | None \<Rightarrow> (entries qc)(k \<mapsto> []))"
  by (simp add: remove_def mutateAsync_rejected remove_onError_def remove_onSettled_def
      remove_onMutate_previous remove_onMutate_entries old_or_empty_def split: option.split)

lemma rejected_results:
  "fst (create k now (Inl err) data qc) = Inl err"
  "fst (update k (Inl err) ident data qc) = Inl err"
  "fst (remove k (Inl err) ident qc) = Inl err"
  by (simp_all add: create_def update_def remove_def mutateAsync_rejected)

lemma settled_invalidated:
  "k \<in> invalidated (snd (create k now remote data qc))"
  "k \<in> invalidated (snd (update k remote ident data qc))"
  "k \<in> invalidated (snd (remove k remote ident qc))"
  by (cases remote;
      simp add: create_def update_def remove_def mutateAsync_rejected mutateAsync_resolved
        create_onSettled_def update_onSettled_def remove_onSettled_def invalidateQueries_def)+

subsection \<open>Rollback\<close>

text \<open>
  Claim C1, as the specification states it, asks that after one mutation whose remote
  call fails the entry under the key equals the entry before the mutation, for every
  key. Each \<^verbatim>\<open>onError\<close> restores under \<^verbatim>\<open>if (ctx?.previous)\<close>, so the statement fails
  for a key that was never populated: a create against the absent entry
  \<^verbatim>\<open>["posts"]\<close> that is rejected leaves a collection under the key.
\<close>

theorem rollback_absent_entry_counterexample:
  "getQueryData [JStr ''posts'']
     (snd (create [JStr ''posts''] 0 (Inl (ApiError ''Network Error''))
             [''title'' \<mapsto> JStr ''New'']
             \<lparr>entries = Map.empty, fetching = {}, invalidated = {}\<rparr>))
   \<noteq> getQueryData [JStr ''posts''] \<lparr>entries = Map.empty, fetching = {}, invalidated = {}\<rparr>"
  by (simp add: getQueryData_def create_rejected_entries)

text \<open>
  Claim C1, amended: for every key whose entry is present (populated, possibly with the
  empty collection) when the mutation begins, and every single create, update or remove
  against that key whose remote call fails, the entry under the key after the mutation
  has settled is exactly the entry that was stored before it began, and the caller
  receives the error of the remote call.
\<close>

theorem rollback_restores_snapshot:
  assumes "getQueryData k qc = Some old"
  shows "getQueryData k (snd (create k now (Inl err) data qc)) = Some old
       \<and> fst (create k now (Inl err) data qc) = Inl err
       \<and> getQueryData k (snd (update k (Inl err) ident data qc)) = Some old
       \<and> fst (update k (Inl err) ident data qc) = Inl err
       \<and> getQueryData k (snd (remove k (Inl err) ident qc)) = Some old
       \<and> fst (remove k (Inl err) ident qc) = Inl err"
proof -
  from assms have present: "entries qc k = Some old"
    by (simp add: getQueryData_def)
  have "getQueryData k (snd (create k now (Inl err) data qc)) = Some old"
    by (simp add: getQueryData_def create_rejected_entries present)
  moreover have "getQueryData k (snd (update k (Inl err) ident data qc)) = Some old"
    by (simp add: getQueryData_def update_rejected_entries present)
  moreover have "getQueryData k (snd (remove k (Inl err) ident qc)) = Some old"
    by (simp add: getQueryData_def remove_rejected_entries present)
  ultimately show ?thesis
    by (simp add: rejected_results)
qed

lemma posts_A_present:
  "getQueryData [JStr ''posts''] posts_A = Some [[''id'' \<mapsto> JNum 1, ''title'' \<mapsto> JStr ''A'']]"
  by (simp add: getQueryData_def posts_A_def)

theorem rollback_restores_snapshot_witness:
  "getQueryData [JStr ''posts''] posts_A = Some [[''id'' \<mapsto> JNum 1, ''title'' \<mapsto> JStr ''A'']]
   \<and> getQueryData [JStr ''posts'']
        (snd (remove [JStr ''posts''] (Inl (ApiError ''Network Error'')) (JNum 1) posts_A))
       = Some [[''id'' \<mapsto> JNum 1, ''title'' \<mapsto> JStr ''A'']]
   \<and> fst (remove [JStr ''posts''] (Inl (ApiError ''Network Error'')) (JNum 1) posts_A)
       = Inl (ApiError ''Network Error'')"
  using rollback_restores_snapshot [OF posts_A_present] posts_A_present
  by simp

text \<open>
  Claim C10: when a create, update or remove starts while the entry of its key is absent
  and the remote call then fails, the entry is not restored to absent. The collection
  written optimistically (the proposed entity alone for a create, the empty collection
  for an update or a remove) is what the key holds after the mutation has settled, and
  the key is marked for the refetch that will replace it.
\<close>

theorem absent_entry_keeps_optimistic_write:
  assumes "getQueryData k qc = None"
  shows "getQueryData k (snd (create k now (Inl err) data qc))
           = Some [data(''id'' \<mapsto> temp_id now)]
       \<and> getQueryData k (snd (create k now (Inl err) data qc))
           = getQueryData k (snd (create_onMutate k now data qc))
       \<and> k \<in> invalidated (snd (create k now (Inl err) data qc))
       \<and> getQueryData k (snd (update k (Inl err) ident data qc)) = Some []
       \<and> getQueryData k (snd (update k (Inl err) ident data qc))
           = getQueryData k (snd (update_onMutate k ident data qc))
       \<and> k \<in> invalidated (snd (update k (Inl err) ident data qc))
       \<and> getQueryData k (snd (remove k (Inl err) ident qc)) = Some []
       \<and> getQueryData k (snd (remove k (Inl err) ident qc))
           = getQueryData k (snd (remove_onMutate k ident qc))
       \<and> k \<in> invalidated (snd (remove k (Inl err) ident qc))"
proof -
  from assms have absent: "entries qc k = None"
    by (simp add: getQueryData_def)
  have "getQueryData k (snd (create k now (Inl err) data qc))
          = Some [data(''id'' \<mapsto> temp_id now)]"
    by (simp add: getQueryData_def create_rejected_entries absent)
  moreover have "getQueryData k (snd (create_onMutate k now data qc))
          = Some [data(''id'' \<mapsto> temp_id now)]"
    by (simp add: getQueryData_def create_onMutate_entries absent old_or_empty_def)
  moreover have "getQueryData k (snd (update k (Inl err) ident data qc)) = Some []"
    by (simp add: getQueryData_def update_rejected_entries absent)
  moreover have "getQueryData k (snd (update_onMutate k ident data qc)) = Some []"
    by (simp add: getQueryData_def update_onMutate_entries absent old_or_empty_def)
  moreover have "getQueryData k (snd (remove k (Inl err) ident qc)) = Some []"
    by (simp add: getQueryData_def remove_rejected_entries absent)
  moreover have "getQueryData k (snd (remove_onMutate k ident qc)) = Some []"
    by (simp add: getQueryData_def remove_onMutate_entries absent old_or_empty_def)
  ultimately show ?thesis
    by (simp add: settled_invalidated)
qed

lemma no_queries_absent: "getQueryData k no_queries = None"
  by (simp add: getQueryData_def no_queries_def)

theorem absent_entry_keeps_optimistic_write_witness:
  "getQueryData [JStr ''posts''] no_queries = None
   \<and> getQueryData [JStr ''posts'']
        (snd (remove [JStr ''posts''] (Inl (ApiError ''Network Error'')) (JNum 1) no_queries))
       = Some []
   \<and> getQueryData [JStr ''posts'']
        (snd (create [JStr ''posts''] 5 (Inl (ApiError ''Network Error''))
                [''title'' \<mapsto> JStr ''New''] no_queries))
       = Some [[''title'' \<mapsto> JStr ''New'', ''id'' \<mapsto> temp_id 5]]"
  using absent_entry_keeps_optimistic_write [OF no_queries_absent, of "[JStr ''posts'']"]
    no_queries_absent
  by simp

subsection \<open>Optimistic update\<close>

text \<open>
  Claim C6: for every entry and every \<^verbatim>\<open>update(id, fields)\<close>, the collection that
  \<^verbatim>\<open>onMutate\<close> writes, before the remote call is issued, is the old collection in which
  each entity whose \<^verbatim>\<open>id\<close> equals the target is replaced by its shallow merge with
  the new fields and every other entity is unchanged; when the remote call rejects, the
  entry reads as before again and the caller receives the error. The witness is the
  example of the specification: \<^verbatim>\<open>[{id:1,title:"A"}]\<close> reads
  \<^verbatim>\<open>[{id:1,title:"B"}]\<close> after \<^verbatim>\<open>update(1, {title:"B"})\<close>, and
  \<^verbatim>\<open>[{id:1,title:"A"}]\<close> after the rejection.
\<close>

theorem optimistic_update_shallow_merge:
  assumes "getQueryData k qc = Some old"
  shows "getQueryData k (snd (update_onMutate k ident data qc))
           = Some (map (\<lambda>item. if item ''id'' = Some ident then item ++ data else item) old)
       \<and> getQueryData k (snd (update k (Inl err) ident data qc)) = Some old
       \<and> fst (update k (Inl err) ident data qc) = Inl err"
proof -
  from assms have present: "entries qc k = Some old"
    by (simp add: getQueryData_def)
  have "getQueryData k (snd (update_onMutate k ident data qc))
          = Some (map (\<lambda>item. if item ''id'' = Some ident then item ++ data else item) old)"
    by (simp add: getQueryData_def update_onMutate_entries present old_or_empty_def has_id_def)
  moreover have "getQueryData k (snd (update k (Inl err) ident data qc)) = Some old"
    by (simp add: getQueryData_def update_rejected_entries present)
  ultimately show ?thesis
    by (simp add: rejected_results)
qed

theorem optimistic_update_shallow_merge_witness:
  "getQueryData [JStr ''posts''] posts_A = Some [[''id'' \<mapsto> JNum 1, ''title'' \<mapsto> JStr ''A'']]
   \<and> getQueryData [JStr ''posts'']
        (snd (update_onMutate [JStr ''posts''] (JNum 1) [''title'' \<mapsto> JStr ''B''] posts_A))
       = Some [[''id'' \<mapsto> JNum 1, ''title'' \<mapsto> JStr ''B'']]
   \<and> getQueryData [JStr ''posts'']
        (snd (update [JStr ''posts''] (Inl (ApiError ''title is invalid'')) (JNum 1)
                [''title'' \<mapsto> JStr ''B''] posts_A))
       = Some [[''id'' \<mapsto> JNum 1, ''title'' \<mapsto> JStr ''A'']]
   \<and> fst (update [JStr ''posts''] (Inl (ApiError ''title is invalid'')) (JNum 1)
                [''title'' \<mapsto> JStr ''B''] posts_A)
       = Inl (ApiError ''title is invalid'')"
  using optimistic_update_shallow_merge
    [OF posts_A_present, of "JNum 1" "[''title'' \<mapsto> JStr ''B'']"] posts_A_present
  by simp

subsection \<open>Temporary identifiers\<close>

lemma decimal_example: "decimal 1700000000000 = ''1700000000000''"
  by (simp add: decimal.simps digit_char_def)

text \<open>
  Claim C4 asks that two distinct optimistic creates never get the same temporary
  identifier. The identifier is the clock reading alone, so two creates that read the
  same millisecond get the same one: after two creates against \<^verbatim>\<open>["posts"]\<close> at the
  reading 1700000000000, the collection holds two entities and the \<^verbatim>\<open>id\<close> of both is
  \<^verbatim>\<open>"temp-1700000000000"\<close>.
\<close>

theorem same_millisecond_creates_share_temp_id:
  "map_option (map (\<lambda>item. item ''id''))
     (getQueryData [JStr ''posts'']
        (snd (create_onMutate [JStr ''posts''] 1700000000000 [''title'' \<mapsto> JStr ''B'']
           (snd (create_onMutate [JStr ''posts''] 1700000000000 [''title'' \<mapsto> JStr ''A'']
                   no_queries)))))
   = Some [Some (JStr ''temp-1700000000000''), Some (JStr ''temp-1700000000000'')]"
  by (simp add: getQueryData_def create_onMutate_entries old_or_empty_def no_queries_def
      temp_id_def decimal_example)

section \<open>Properties of the session manager\<close>

subsection \<open>Steps and traces\<close>

lemma key_distinct [simp]:
  "ACCESS_TOKEN_KEY \<noteq> REFRESH_TOKEN_KEY" "ACCESS_TOKEN_KEY \<noteq> USER_KEY"
  "REFRESH_TOKEN_KEY \<noteq> USER_KEY" "REFRESH_TOKEN_KEY \<noteq> ACCESS_TOKEN_KEY"
  "USER_KEY \<noteq> ACCESS_TOKEN_KEY" "USER_KEY \<noteq> REFRESH_TOKEN_KEY"
  by (simp_all add: ACCESS_TOKEN_KEY_def REFRESH_TOKEN_KEY_def USER_KEY_def)

lemma run_Nil [simp]: "run [] s = s"
  by (simp add: run_def)

lemma run_Cons [simp]: "run (e # es) s = run es (perform e s)"
  by (simp add: run_def)

lemma run_append [simp]: "run (es @ fs) s = run fs (run es s)"
  by (simp add: run_def)

lemma trace_nonempty [simp]: "trace es s \<noteq> []"
  by (cases es) auto

lemma trace_append: "trace (es @ fs) s = butlast (trace es s) @ trace fs (run es s)"
  by (induction es arbitrary: s) auto

lemma last_trace: "last (trace es s) = run es s"
  by (induction es arbitrary: s) auto

lemma run_in_trace: "run es s \<in> set (trace es s)"
  using last_in_set [of "trace es s"] by (simp add: last_trace)

subsection \<open>Persist before publish\<close>

text \<open>
  While \<^verbatim>\<open>saveAuth\<close> runs the user state is untouched, and every state after its
  first step holds the access token of the response; once it has run, the profile is
  stored as well.
\<close>

lemma saveAuth_trace_state:
  "t \<in> set (trace (saveAuth stringify data) s) \<Longrightarrow>
     user t = user s \<and> (t = s \<or> storage t ACCESS_TOKEN_KEY = Some (access data))"
  by (auto simp: saveAuth_def split: option.splits if_splits)

lemma storage_after_saveAuth:
  "storage (run (saveAuth stringify data) s) ACCESS_TOKEN_KEY = Some (access data)"
  "storage (run (saveAuth stringify data) s) USER_KEY = Some (stringify (data_user data))"
  by (auto simp: saveAuth_def split: option.splits)

lemma login_trace:
  "trace (login_onSuccess stringify data) s =
     butlast (trace (saveAuth stringify data) s) @
     [run (saveAuth stringify data) s,
      perform (SetUser (Some (data_user data))) (run (saveAuth stringify data) s),
      run (login_onSuccess stringify data) s]"
  by (simp add: login_onSuccess_def trace_append)

lemma register_trace:
  "trace (register_onSuccess stringify data) s =
     butlast (trace (saveAuth stringify data) s) @
     [run (saveAuth stringify data) s,
      perform (SetUser (Some (data_user data))) (run (saveAuth stringify data) s),
      run (register_onSuccess stringify data) s]"
  by (simp add: register_onSuccess_def trace_append)

lemma handler_states:
  assumes "t \<in> set (butlast (trace (saveAuth stringify data) s) @
              [run (saveAuth stringify data) s,
               perform (SetUser u) (run (saveAuth stringify data) s),
               perform QueryClientClear (perform (SetUser u) (run (saveAuth stringify data) s))])"
  shows "(user t = user s \<and> (t = s \<or> storage t ACCESS_TOKEN_KEY = Some (access data)))
       \<or> (storage t ACCESS_TOKEN_KEY = Some (access data)
          \<and> storage t USER_KEY = Some (stringify (data_user data)))"
proof -
  have "t' \<in> set (trace (saveAuth stringify data) s)"
    if "t' \<in> set (butlast (trace (saveAuth stringify data) s))" for t'
    using that by (rule in_set_butlastD)
  then show ?thesis
    using assms saveAuth_trace_state [of _ stringify data s]
    by (auto simp: storage_after_saveAuth)
qed

text \<open>
  Claim C2: a successful login or registration never passes through a state in which the
  in-memory session is authenticated while the durable store holds no access token.
  Started from a session that is signed out (or from one whose store holds a token), every
  state of the handler's trace in which \<^verbatim>\<open>isAuthenticated\<close> holds has an access token
  in the store; and every state in which the user state differs from the initial one,
  that is every state after \<^verbatim>\<open>setUser\<close>, holds the access token and the serialized
  profile of the response: the writes are complete before the session is published.
\<close>

theorem persist_before_publish:
  assumes "user s = None \<or> storage s ACCESS_TOKEN_KEY \<noteq> None"
    and "t \<in> set (trace (login_onSuccess stringify data) s)
         \<or> t \<in> set (trace (register_onSuccess stringify data) s)"
    and "isAuthenticated t"
  shows "storage t ACCESS_TOKEN_KEY \<noteq> None
       \<and> (user t \<noteq> user s \<longrightarrow>
            storage t ACCESS_TOKEN_KEY = Some (access data)
          \<and> storage t USER_KEY = Some (stringify (data_user data)))"
proof -
  have "run (login_onSuccess stringify data) s =
          perform QueryClientClear
            (perform (SetUser (Some (data_user data))) (run (saveAuth stringify data) s))"
    and "run (register_onSuccess stringify data) s =
          perform QueryClientClear
            (perform (SetUser (Some (data_user data))) (run (saveAuth stringify data) s))"
    by (simp_all add: login_onSuccess_def register_onSuccess_def)
  with assms(2) have "t \<in> set (butlast (trace (saveAuth stringify data) s) @
              [run (saveAuth stringify data) s,
               perform (SetUser (Some (data_user data))) (run (saveAuth stringify data) s),
               perform QueryClientClear
                 (perform (SetUser (Some (data_user data))) (run (saveAuth stringify data) s))])"
    by (auto simp only: login_trace register_trace)
  from handler_states [OF this] assms(1,3) show ?thesis
    by (auto simp: isAuthenticated_def)
qed

theorem persist_before_publish_witness:
  "(user signed_out = None \<or> storage signed_out ACCESS_TOKEN_KEY \<noteq> None)
   \<and> run (login_onSuccess (\<lambda>u. ''{}'') login_response) signed_out
       \<in> set (trace (login_onSuccess (\<lambda>u. ''{}'') login_response) signed_out)
   \<and> isAuthenticated (run (login_onSuccess (\<lambda>u. ''{}'') login_response) signed_out)
   \<and> user (run (login_onSuccess (\<lambda>u. ''{}'') login_response) signed_out) \<noteq> user signed_out
   \<and> storage (run (login_onSuccess (\<lambda>u. ''{}'') login_response) signed_out) ACCESS_TOKEN_KEY
       = Some ''A1''
   \<and> storage (run (login_onSuccess (\<lambda>u. ''{}'') login_response) signed_out) USER_KEY
       = Some ''{}''"
proof -
  have a: "user signed_out = None \<or> storage signed_out ACCESS_TOKEN_KEY \<noteq> None"
    by (simp add: signed_out_def)
  have b: "run (login_onSuccess (\<lambda>u. ''{}'') login_response) signed_out
       \<in> set (trace (login_onSuccess (\<lambda>u. ''{}'') login_response) signed_out)"
    by (rule run_in_trace)
  have c: "isAuthenticated (run (login_onSuccess (\<lambda>u. ''{}'') login_response) signed_out)"
    by (simp add: isAuthenticated_def login_onSuccess_def)
  have d: "user (run (login_onSuccess (\<lambda>u. ''{}'') login_response) signed_out)
             \<noteq> user signed_out"
    by (simp add: login_onSuccess_def signed_out_def)
  from persist_before_publish [OF a disjI1 [OF b] c] a b c d show ?thesis
    by (simp add: login_response_def)
qed

subsection \<open>The three durable entries\<close>

text \<open>
  Claim C5 asks that the access token, the refresh token and the profile are written as
  one group. \<^verbatim>\<open>saveAuth\<close> writes them with three separate awaited calls, so the states
  between the calls are observable: from an empty store, the login response
  \<^verbatim>\<open>{access: "A1", refresh: "R1", user}\<close> passes through a store that holds the access
  token alone, and through one that holds both tokens and no profile. A later response
  without a refresh token leaves the refresh token of the earlier session in the store.
\<close>

theorem saveAuth_writes_one_entry_at_a_time:
  "map (\<lambda>t. (storage t ACCESS_TOKEN_KEY, storage t REFRESH_TOKEN_KEY, storage t USER_KEY))
     (trace (saveAuth (\<lambda>u. ''{}'') login_response) signed_out)
   = [(None, None, None),
      (Some ''A1'', None, None),
      (Some ''A1'', Some ''R1'', None),
      (Some ''A1'', Some ''R1'', Some ''{}'')]
   \<and> storage (run (saveAuth (\<lambda>u. ''{}'') \<lparr>access = ''A2'', refresh = None, data_user = admin\<rparr>)
                (run (saveAuth (\<lambda>u. ''{}'') login_response) signed_out)) REFRESH_TOKEN_KEY
     = Some ''R1''"
  by (simp add: saveAuth_def login_response_def signed_out_def)

subsection \<open>Session termination\<close>

lemma run_termination:
  "run (clearAuth @ [SetUser None, QueryClientClear]) s =
     \<lparr>storage = storage s |` (- {ACCESS_TOKEN_KEY, REFRESH_TOKEN_KEY, USER_KEY}),
      user = None, queryClient = clear (queryClient s)\<rparr>"
  by (simp add: clearAuth_def)

lemma purged_after_termination:
  "getQueryData k (queryClient (run (clearAuth @ [SetUser None, QueryClientClear]) s)) = None"
  "storage (run (clearAuth @ [SetUser None, QueryClientClear]) s) ACCESS_TOKEN_KEY = None"
  "storage (run (clearAuth @ [SetUser None, QueryClientClear]) s) REFRESH_TOKEN_KEY = None"
  "storage (run (clearAuth @ [SetUser None, QueryClientClear]) s) USER_KEY = None"
  "user (run (clearAuth @ [SetUser None, QueryClientClear]) s) = None"
  by (simp_all only: run_termination) (simp_all add: getQueryData_def clear_def)

lemma emitLogout_pending:
  "emitLogout invoke_listener ls rt = Inr (rt\<lparr>pending := pending rt @ map listener_body ls\<rparr>)"
  by (induction ls arbitrary: rt) (simp_all add: invoke_listener_def)

lemma settle_snoc:
  "settle \<lparr>app_state = s, pending = ts @ [es]\<rparr> = run es (fold run ts s)"
  by (simp add: settle_def)

text \<open>
  Claim C3: whatever the cache, the store and the session hold, after a local logout, and
  after an emission on the bus has been processed by the listener that \<^verbatim>\<open>useAuth\<close>
  subscribed, reading any key of the cache gives absent, none of the three durable
  entries is left and the in-memory user is null. The listener performs the very steps
  of \<^verbatim>\<open>logout\<close>, and the emission returns (no listener of \<^verbatim>\<open>useAuth\<close> throws).
\<close>

theorem session_purge_completeness:
  "getQueryData k (queryClient (run logout s)) = None
   \<and> storage (run logout s) ACCESS_TOKEN_KEY = None
   \<and> storage (run logout s) REFRESH_TOKEN_KEY = None
   \<and> storage (run logout s) USER_KEY = None
   \<and> user (run logout s) = None
   \<and> listener_body (UseAuthListener i) = logout
   \<and> (case emitLogout invoke_listener (fst (useAuth_subscribe i ls))
               \<lparr>app_state = s, pending = []\<rparr> of
         Inl thrown \<Rightarrow> False
       | Inr rt \<Rightarrow>
           getQueryData k (queryClient (settle rt)) = None
         \<and> storage (settle rt) ACCESS_TOKEN_KEY = None
         \<and> storage (settle rt) REFRESH_TOKEN_KEY = None
         \<and> storage (settle rt) USER_KEY = None
         \<and> user (settle rt) = None)"
proof -
  have "emitLogout invoke_listener (fst (useAuth_subscribe i ls)) \<lparr>app_state = s, pending = []\<rparr>
        = Inr \<lparr>app_state = s, pending = map listener_body ls @ [listener_body (UseAuthListener i)]\<rparr>"
    by (simp add: emitLogout_pending useAuth_subscribe_def subscribe_def)
  moreover have "settle \<lparr>app_state = s,
                         pending = map listener_body ls @ [listener_body (UseAuthListener i)]\<rparr>
        = run (clearAuth @ [SetUser None, QueryClientClear]) (fold run (map listener_body ls) s)"
    by (simp only: settle_snoc listener_body.simps)
  moreover have "listener_body (UseAuthListener i) = logout"
    by (simp add: logout_def)
  ultimately show ?thesis
    by (simp only: logout_def purged_after_termination simp_thms sum.case)
qed

subsection \<open>Roles and permissions\<close>

lemma current_permissions_member:
  "x \<in> set (current_permissions u) \<longleftrightarrow>
     (\<exists>p ps. u = Some p \<and> permissions p = Some ps \<and> x \<in> set ps)"
proof (cases u)
  case None
  then show ?thesis by (simp add: current_permissions_def)
next
  case (Some p)
  then show ?thesis by (cases "permissions p") (simp_all add: current_permissions_def)
qed

lemma current_role_Some: "current_role u = Some r \<longleftrightarrow> (\<exists>p. u = Some p \<and> role p = Some r)"
  by (cases u) (simp_all add: current_role_def)

text \<open>
  Claim C7: for the user object in memory, or none, \<^verbatim>\<open>hasRole(r)\<close> holds exactly when
  there is a user whose role is \<open>r\<close>, \<^verbatim>\<open>hasPermission(p)\<close> exactly when there is a
  user whose permission list contains \<open>p\<close>, and \<^verbatim>\<open>hasAnyPermission(list)\<close> exactly
  when some element of the list is in the user's permission list; with no user in memory
  all three are false for every argument.
\<close>

theorem role_and_permission_checks:
  "(hasRole u r \<longleftrightarrow> (\<exists>p. u = Some p \<and> role p = Some r))
   \<and> (hasPermission u perm \<longleftrightarrow>
        (\<exists>p ps. u = Some p \<and> permissions p = Some ps \<and> perm \<in> set ps))
   \<and> (hasAnyPermission u perms \<longleftrightarrow>
        (\<exists>p ps. u = Some p \<and> permissions p = Some ps \<and> (\<exists>x \<in> set perms. x \<in> set ps)))
   \<and> \<not> hasRole None r \<and> \<not> hasPermission None perm \<and> \<not> hasAnyPermission None perms"
proof -
  have "hasRole u r \<longleftrightarrow> (\<exists>p. u = Some p \<and> role p = Some r)" for u
    by (simp add: hasRole_def current_role_Some)
  moreover have "hasPermission u perm \<longleftrightarrow>
      (\<exists>p ps. u = Some p \<and> permissions p = Some ps \<and> perm \<in> set ps)" for u
    by (simp add: hasPermission_def current_permissions_member)
  moreover have "hasAnyPermission u perms \<longleftrightarrow>
      (\<exists>p ps. u = Some p \<and> permissions p = Some ps \<and> (\<exists>x \<in> set perms. x \<in> set ps))" for u
    unfolding hasAnyPermission_def list_ex_iff current_permissions_member by blast
  ultimately show ?thesis
    by simp
qed

section \<open>Properties of the event bus\<close>

lemma fold_subscribe: "fold (\<lambda>f ls. fst (subscribe f ls)) fs ls = ls @ fs"
  by (induction fs arbitrary: ls) (simp_all add: subscribe_def)

text \<open>
  The calls of an emission. When it returns, every listener of the array has been called,
  in the order of the array; when it throws, the listeners up to the one that threw have
  been called, in that order, and no other.
\<close>

lemma emitLogout_returns_calls:
  "emitLogout invoke ls w = Inr w' \<Longrightarrow>
     emitLogout (recorded invoke) ls (calls, w) = Inr (calls @ ls, w')"
proof (induction ls arbitrary: w calls)
  case Nil
  then show ?case by simp
next
  case (Cons l ls)
  then obtain w1 where step: "invoke l w = Inr w1" and rest: "emitLogout invoke ls w1 = Inr w'"
    by (auto split: sum.splits)
  from Cons.IH [OF rest, of "calls @ [l]"] step show ?case
    by (simp add: recorded_def)
qed

lemma emitLogout_throws_calls:
  "emitLogout invoke ls w = Inl e \<Longrightarrow>
     \<exists>n<length ls. emitLogout (recorded invoke) ls (calls, w) = Inl (calls @ take (Suc n) ls, e)"
proof (induction ls arbitrary: w calls)
  case Nil
  then show ?case by simp
next
  case (Cons l ls)
  show ?case
  proof (cases "invoke l w")
    case (Inl thrown)
    with Cons.prems have "emitLogout (recorded invoke) (l # ls) (calls, w) = Inl (calls @ [l], e)"
      by (simp add: recorded_def)
    then have "emitLogout (recorded invoke) (l # ls) (calls, w)
                 = Inl (calls @ take (Suc 0) (l # ls), e)"
      by simp
    then show ?thesis by blast
  next
    case (Inr w1)
    with Cons.prems have "emitLogout invoke ls w1 = Inl e"
      by simp
    from Cons.IH [OF this, of "calls @ [l]"] obtain n where
      n: "n < length ls"
        "emitLogout (recorded invoke) ls (calls @ [l], w1) = Inl ((calls @ [l]) @ take (Suc n) ls, e)"
      by blast
    with Inr have "emitLogout (recorded invoke) (l # ls) (calls, w)
                 = Inl (calls @ take (Suc (Suc n)) (l # ls), e)"
      by (simp add: recorded_def)
    with n(1) show ?thesis
      by (intro exI [of _ "Suc n"]) simp
  qed
qed

lemma emitLogout_returns:
  "(\<And>l w. l \<in> set ls \<Longrightarrow> \<exists>w'. invoke l w = Inr w') \<Longrightarrow> \<exists>w'. emitLogout invoke ls w = Inr w'"
proof (induction ls arbitrary: w)
  case Nil
  then show ?case by simp
next
  case (Cons l ls)
  from Cons.prems [of l w] obtain w1 where step: "invoke l w = Inr w1"
    by auto
  have "\<exists>w'. emitLogout invoke ls w1 = Inr w'"
    by (rule Cons.IH) (simp add: Cons.prems)
  with step show ?case
    by simp
qed

text \<open>
  Claim C8, as the specification states it, asks that for every state of the listener
  array an emission calls every subscribed callback exactly once and then returns. It
  fails in two ways. \<^verbatim>\<open>subscribe\<close> pushes without looking for the function in the
  array, so a function subscribed twice is in the array twice and is called twice. And
  the loop has no \<^verbatim>\<open>try\<close>: when the first of two listeners throws, the emission throws
  and the second listener is never called.
\<close>

theorem emitLogout_exactly_once_counterexample:
  "fst (subscribe (UseAuthListener 1) (fst (subscribe (UseAuthListener 1) [])))
     = [UseAuthListener 1, UseAuthListener 1]
   \<and> map_sum fst fst
        (emitLogout (recorded invoke_listener)
           (fst (subscribe (UseAuthListener 1) (fst (subscribe (UseAuthListener 1) []))))
           ([], idle))
       = Inr [UseAuthListener 1, UseAuthListener 1]
   \<and> map_sum fst fst
        (emitLogout (recorded first_throws) [UseAuthListener 0, UseAuthListener 1] ([], idle))
       = Inl [UseAuthListener 0]
   \<and> emitLogout first_throws [UseAuthListener 0, UseAuthListener 1] idle = Inl (Thrown ''boom'')"
  by (simp add: subscribe_def recorded_def invoke_listener_def first_throws_def)

text \<open>
  Claim C8, amended: for every listener array, \<^verbatim>\<open>emitLogout\<close> calls the listeners
  synchronously, with no argument (\<open>invoke\<close> receives the listener alone), in the order
  of the array, which is the order of subscription, each as many times as it is
  registered (once when it is registered once), up to and including the first one that
  throws. When no listener throws, every listener of the array is called and the
  emission then returns; when one throws, the emission throws what the listener threw
  and the listeners after it are not called. With the asynchronous listeners of the
  repository the emission returns with the application state untouched and the
  listeners' work pending: it does not wait for it.
\<close>

theorem emitLogout_calls_listeners_in_order:
  "(case emitLogout (recorded invoke) listeners (calls, w) of
      Inr (cs, w') \<Rightarrow> cs = calls @ listeners \<and> emitLogout invoke listeners w = Inr w'
    | Inl (cs, e) \<Rightarrow>
        (\<exists>n<length listeners. cs = calls @ take (Suc n) listeners)
        \<and> emitLogout invoke listeners w = Inl e)
   \<and> ((\<forall>l\<in>set listeners. \<forall>w0. \<exists>w1. invoke l w0 = Inr w1) \<longrightarrow>
        (\<exists>w'. emitLogout (recorded invoke) listeners (calls, w) = Inr (calls @ listeners, w')
             \<and> emitLogout invoke listeners w = Inr w'))
   \<and> fold (\<lambda>f ls. fst (subscribe f ls)) fs [] = fs
   \<and> emitLogout invoke_listener ls rt
       = Inr (rt\<lparr>pending := pending rt @ map listener_body ls\<rparr>)"
proof -
  have calls_made: "case emitLogout (recorded invoke) listeners (calls, w) of
      Inr (cs, w') \<Rightarrow> cs = calls @ listeners \<and> emitLogout invoke listeners w = Inr w'
    | Inl (cs, e) \<Rightarrow>
        (\<exists>n<length listeners. cs = calls @ take (Suc n) listeners)
        \<and> emitLogout invoke listeners w = Inl e"
  proof (cases "emitLogout invoke listeners w")
    case (Inl e)
    from emitLogout_throws_calls [OF this, of calls] Inl show ?thesis
      by auto
  next
    case (Inr w')
    from emitLogout_returns_calls [OF this, of calls] Inr show ?thesis
      by simp
  qed
  have returns: "\<exists>w'. emitLogout (recorded invoke) listeners (calls, w) = Inr (calls @ listeners, w')
             \<and> emitLogout invoke listeners w = Inr w'"
    if "\<forall>l\<in>set listeners. \<forall>w0. \<exists>w1. invoke l w0 = Inr w1"
  proof -
    from that have "\<exists>w'. emitLogout invoke listeners w = Inr w'"
      by (intro emitLogout_returns) blast
    then obtain w' where "emitLogout invoke listeners w = Inr w'" ..
    with emitLogout_returns_calls [OF this, of calls] show ?thesis
      by blast
  qed
  have "fold (\<lambda>f ls. fst (subscribe f ls)) fs [] = fs"
    by (simp add: fold_subscribe)
  with calls_made returns show ?thesis
    by (simp add: emitLogout_pending)
qed

theorem emitLogout_calls_listeners_in_order_witness:
  "(\<forall>l w0. \<exists>w1. invoke_listener l w0 = Inr w1)
   \<and> emitLogout (recorded invoke_listener) [UseAuthListener 1, UseAuthListener 2] ([], idle)
       = Inr ([UseAuthListener 1, UseAuthListener 2],
              idle\<lparr>pending := [listener_body (UseAuthListener 1), listener_body (UseAuthListener 2)]\<rparr>)
   \<and> emitLogout invoke_listener [UseAuthListener 1, UseAuthListener 2] idle
       = Inr (idle\<lparr>pending := [listener_body (UseAuthListener 1), listener_body (UseAuthListener 2)]\<rparr>)"
proof -
  have never_throws: "\<forall>l w0. \<exists>w1. invoke_listener l w0 = Inr w1"
    by (simp add: invoke_listener_def)
  then have "\<forall>l\<in>set [UseAuthListener 1, UseAuthListener 2]. \<forall>w0. \<exists>w1. invoke_listener l w0 = Inr w1"
    by blast
  with emitLogout_calls_listeners_in_order
         [where invoke = invoke_listener and calls = "[]" and w = idle
            and listeners = "[UseAuthListener 1, UseAuthListener 2]"
            and ls = "[UseAuthListener 1, UseAuthListener 2]" and rt = idle]
  have "emitLogout invoke_listener [UseAuthListener 1, UseAuthListener 2] idle
          = Inr (idle\<lparr>pending := pending idle @
                   map listener_body [UseAuthListener 1, UseAuthListener 2]\<rparr>)"
    and "\<exists>w'. emitLogout (recorded invoke_listener) [UseAuthListener 1, UseAuthListener 2] ([], idle)
                 = Inr ([] @ [UseAuthListener 1, UseAuthListener 2], w')
             \<and> emitLogout invoke_listener [UseAuthListener 1, UseAuthListener 2] idle = Inr w'"
    by blast+
  with never_throws show ?thesis
    by (auto simp: idle_def)
qed



end
